theory Spec2Isabelle
  imports Main "HOL-Library.Sublist" "HOL-Library.Multiset"
begin

section \<open>Strings\<close>

text \<open>
  A Python \<open>str\<close> is a sequence of code points. It is modelled by \<open>string\<close>, each
  \<open>char\<close> standing for the code point of the same number (the range below 256),
  so \<open>length\<close> counts code points as \<open>len\<close> does.
\<close>

definition isspace :: "char \<Rightarrow> bool" where
  \<comment> \<open>\<open>str.isspace\<close> on one character: tab, line feed, vertical tab, form feed,
      carriage return, the four separators 0x1C..0x1F, space, NEL and the no-break space.\<close>
  "isspace c =
     (let n = (of_char c :: nat)
      in (9 \<le> n \<and> n \<le> 13) \<or> (28 \<le> n \<and> n \<le> 32) \<or> n = 133 \<or> n = 160)"

definition strip :: "string \<Rightarrow> string" where
  \<comment> \<open>\<open>str.strip()\<close> without argument: whitespace removed at both ends.\<close>
  "strip s = rev (dropWhile isspace (rev (dropWhile isspace s)))"

section \<open>The regular expression of the answer extractor\<close>

text \<open>
  \<open>re.compile(r'<<FINAL_ANSWER\|\|(.*?)\|\|FINAL_ANSWER>>', re.DOTALL)\<close> is a sequence
  of literal characters around one group, the lazy repetition \<open>(.*?)\<close> of the dot.
  A compiled pattern of that shape is a list of tokens; the matcher is the backtracking
  matcher of \<open>re\<close> on such patterns.
\<close>

datatype token = Literal char | Lazy_Any_Group

fun lazy_scan ::
  "(string \<Rightarrow> string \<Rightarrow> string option) \<Rightarrow> bool \<Rightarrow> string \<Rightarrow> string \<Rightarrow> string option" where
  \<comment> \<open>\<open>(.*?)\<close> followed by the rest of the pattern \<open>k\<close>: the rest is tried first, and
      only when it fails does the dot take one more character (any character under
      DOTALL, any but a line feed otherwise). \<open>acc\<close> is the group so far, reversed.\<close>
  "lazy_scan k dotall [] acc = k [] (rev acc)"
| "lazy_scan k dotall (x # xs) acc =
     (case k (x # xs) (rev acc) of
        Some g \<Rightarrow> Some g
      | None \<Rightarrow>
          if dotall \<or> x \<noteq> CHR ''\<newline>'' then lazy_scan k dotall xs (x # acc) else None)"

primrec match_at :: "bool \<Rightarrow> token list \<Rightarrow> string \<Rightarrow> string \<Rightarrow> string option" where
  \<comment> \<open>\<open>match_at dotall p s g\<close> matches the pattern \<open>p\<close> at the start of \<open>s\<close>; \<open>g\<close> is
      the content of group 1 so far, and the result is group 1 of the match.\<close>
  "match_at dotall [] = (\<lambda>s g. Some g)"
| "match_at dotall (t # ts) =
     (case t of
        Literal c \<Rightarrow>
          (\<lambda>s g. case s of
                    [] \<Rightarrow> None
                  | x # xs \<Rightarrow> if x = c then match_at dotall ts xs g else None)
      | Lazy_Any_Group \<Rightarrow> (\<lambda>s g. lazy_scan (match_at dotall ts) dotall s []))"

fun re_search :: "bool \<Rightarrow> token list \<Rightarrow> string \<Rightarrow> string option" where
  \<comment> \<open>\<open>pattern.search(s)\<close>: the start positions are tried from left to right, the end of
      the string included; the result is \<open>match.group(1)\<close>, or \<open>None\<close> without a match.\<close>
  "re_search dotall p [] = match_at dotall p [] []"
| "re_search dotall p (x # xs) =
     (case match_at dotall p (x # xs) [] of
        Some g \<Rightarrow> Some g
      | None \<Rightarrow> re_search dotall p xs)"

definition marker_open :: string where
  "marker_open = ''<<FINAL_ANSWER||''"

definition marker_close :: string where
  "marker_close = ''||FINAL_ANSWER>>''"

definition pattern :: "token list" where
  "pattern = map Literal marker_open @ [Lazy_Any_Group] @ map Literal marker_close"

definition no_final_answer :: string where
  "no_final_answer = ''No final answer found in the provided string.''"

section \<open>Extraction and scoring\<close>

definition parse_final_answer :: "string \<Rightarrow> string" where
  "parse_final_answer final_answer =
     (case re_search True pattern final_answer of
        Some g \<Rightarrow> strip g
      | None \<Rightarrow> no_final_answer)"

definition compare_answers :: "string \<Rightarrow> string \<Rightarrow> bool" where
  "compare_answers predicted_answer ground_truth = (predicted_answer = ground_truth)"

definition get_test_result :: "string \<Rightarrow> string \<Rightarrow> bool" where
  "get_test_result model_output ground_truth =
     (let predicted_answer = parse_final_answer model_output;
          result = compare_answers predicted_answer ground_truth
      in result)"

section \<open>Occurrences of the final-answer marker\<close>

text \<open>
  What the specification calls an occurrence of the marker in a text: an opening
  delimiter, a captured text and a closing delimiter, after \<open>pre\<close> and before \<open>post\<close>.
  The first occurrence starts leftmost, and among those with that start has the
  shortest capture.
\<close>

definition occurrence :: "string \<Rightarrow> string \<Rightarrow> string \<Rightarrow> string \<Rightarrow> bool" where
  "occurrence s pre cap post = (s = pre @ marker_open @ cap @ marker_close @ post)"

definition first_occurrence :: "string \<Rightarrow> string \<Rightarrow> string \<Rightarrow> string \<Rightarrow> bool" where
  "first_occurrence s pre cap post =
     (occurrence s pre cap post \<and>
      (\<forall>pre' cap' post'. occurrence s pre' cap' post' \<longrightarrow>
         length pre < length pre' \<or> (length pre = length pre' \<and> length cap \<le> length cap')))"

section \<open>Exceptions\<close>

text \<open>
  The exceptions the program can leave with. \<open>Foreign\<close> is an exception raised inside
  a collaborator whose code is outside \<open>run_infer.py\<close> (the agent registry, the agent
  loop);
  its flag tells whether its class derives from \<open>Exception\<close>, which is what an
  \<open>except Exception\<close> clause catches.
\<close>

datatype exn =
    KeyError string
  | IndexError
  | ValueError string
  | AssertionError string
  | FileExistsError
  | FileNotFoundError
  | NotADirectoryError
  | IsADirectoryError
  | Foreign bool string

fun is_Exception :: "exn \<Rightarrow> bool" where
  "is_Exception (Foreign derives _) = derives"
| "is_Exception _ = True"

definition getitem :: "(string \<rightharpoonup> 'v) \<Rightarrow> string \<Rightarrow> exn + 'v" where
  \<comment> \<open>\<open>d[k]\<close> on a dict: a missing key raises \<open>KeyError(k)\<close>.\<close>
  "getitem d k = (case d k of None \<Rightarrow> Inl (KeyError k) | Some v \<Rightarrow> Inr v)"

section \<open>Preparing an instance\<close>

text \<open>
  \<open>random.shuffle(x)\<close> is the loop
  \<^verbatim>\<open>for i in reversed(range(1, len(x))): j = randbelow(i + 1); x[i], x[j] = x[j], x[i]\<close>.
  The random source is the parameter \<open>randbelow\<close>; each bound is asked for once in one
  shuffle, so a function of the bound describes every run. The right-hand side of the
  exchange is read first, then \<open>x[i]\<close> and \<open>x[j]\<close> are written in this order; an index
  outside the list raises \<open>IndexError\<close>.
\<close>

primrec shuffle_loop :: "(nat \<Rightarrow> nat) \<Rightarrow> nat \<Rightarrow> 'a list \<Rightarrow> exn + 'a list" where
  "shuffle_loop randbelow 0 x = Inr x"
| "shuffle_loop randbelow (Suc k) x =
     (let i = Suc k; j = randbelow (i + 1)
      in if i < length x \<and> j < length x
         then shuffle_loop randbelow k (x[i := x ! j, j := x ! i])
         else Inl IndexError)"

definition shuffle :: "(nat \<Rightarrow> nat) \<Rightarrow> 'a list \<Rightarrow> exn + 'a list" where
  "shuffle randbelow x = shuffle_loop randbelow (length x - 1) x"

primrec list_index :: "'a list \<Rightarrow> 'a \<Rightarrow> exn + nat" where
  \<comment> \<open>\<open>xs.index(v)\<close>: the first position holding \<open>v\<close>, \<open>ValueError\<close> without one.\<close>
  "list_index [] v = Inl (ValueError ''is not in list'')"
| "list_index (y # ys) v =
     (if y = v then Inr 0
      else case list_index ys v of Inl e \<Rightarrow> Inl e | Inr i \<Rightarrow> Inr (Suc i))"

definition chr :: "nat \<Rightarrow> string" where
  \<comment> \<open>\<open>chr(i)\<close> for a code point below 256; the program calls it on 65..68 only.\<close>
  "chr i = [char_of i]"

record prepared =
  question :: string
  choices :: "string list"
  correct_solution :: string

definition convert_instance_dict :: "(nat \<Rightarrow> nat) \<Rightarrow> (string \<rightharpoonup> string) \<Rightarrow> exn + prepared" where
  "convert_instance_dict randbelow instance =
     (case getitem instance ''Question'' of Inl e \<Rightarrow> Inl e | Inr q \<Rightarrow>
     (case getitem instance ''Correct Answer'' of Inl e \<Rightarrow> Inl e | Inr correct_answer \<Rightarrow>
     (case getitem instance ''Incorrect Answer 1'' of Inl e \<Rightarrow> Inl e | Inr incorrect1 \<Rightarrow>
     (case getitem instance ''Incorrect Answer 2'' of Inl e \<Rightarrow> Inl e | Inr incorrect2 \<Rightarrow>
     (case getitem instance ''Incorrect Answer 3'' of Inl e \<Rightarrow> Inl e | Inr incorrect3 \<Rightarrow>
     (case shuffle randbelow [correct_answer, incorrect1, incorrect2, incorrect3] of
        Inl e \<Rightarrow> Inl e
      | Inr shuffled \<Rightarrow>
     (case list_index shuffled correct_answer of
        Inl e \<Rightarrow> Inl e
      | Inr correct_index \<Rightarrow>
          Inr \<lparr>question = q, choices = shuffled,
               correct_solution = chr (65 + correct_index)\<rparr>)))))))"

text \<open>The fields of a raw record that the preparation reads, in the order it reads them.\<close>

definition record_fields :: "string list" where
  "record_fields =
     [''Question'', ''Correct Answer'', ''Incorrect Answer 1'', ''Incorrect Answer 2'',
      ''Incorrect Answer 3'']"

section \<open>Path names\<close>

definition join_step :: "string \<Rightarrow> string \<Rightarrow> string" where
  \<comment> \<open>One round of the loop of \<open>posixpath.join\<close>: a component that starts with the
      separator replaces the path; no separator is added to an empty path or after one.\<close>
  "join_step path b =
     (if prefix ''/'' b then b
      else if path = [] \<or> last path = CHR ''/'' then path @ b
      else path @ ''/'' @ b)"

definition os_path_join :: "string \<Rightarrow> string list \<Rightarrow> string" where
  "os_path_join a p = foldl join_step a p"

fun str :: "nat \<Rightarrow> string" where
  \<comment> \<open>\<open>str(n)\<close> for a non-negative integer: its decimal digits.\<close>
  "str n = (if n < 10 then [char_of (48 + n)] else str (n div 10) @ [char_of (48 + n mod 10)])"

declare str.simps [simp del]

primrec split_sep :: "string \<Rightarrow> string list" where
  \<comment> \<open>\<open>s.split('/')\<close>\<close>
  "split_sep [] = [[]]"
| "split_sep (c # cs) =
     (if c = CHR ''/'' then [] # split_sep cs
      else case split_sep cs of [] \<Rightarrow> [[c]] | w # ws \<Rightarrow> (c # w) # ws)"

text \<open>
  A \<open>pathlib\<close> path is its root (empty for a relative path, one slash, or two slashes
  when the text starts with exactly two) and its parts: the components between
  separators, the empty ones and \<open>.\<close> left out.
\<close>

datatype posix_path = PosixPath (root: string) (parts: "string list")

definition Path :: "string \<Rightarrow> posix_path" where
  "Path s =
     PosixPath
       (if \<not> prefix ''/'' s then []
        else if prefix ''//'' s \<and> \<not> prefix ''///'' s then ''//''
        else ''/'')
       (filter (\<lambda>x. x \<noteq> [] \<and> x \<noteq> ''.'') (split_sep s))"

definition parent :: "posix_path \<Rightarrow> posix_path" where
  "parent p = (case parts p of [] \<Rightarrow> p | _ # _ \<Rightarrow> PosixPath (root p) (butlast (parts p)))"

definition names :: "posix_path \<Rightarrow> string list" where
  \<comment> \<open>The names the file system walks through: the root, then the parts.\<close>
  "names p = root p # parts p"

section \<open>The file system\<close>

text \<open>
  The file system is a tree of directories and regular files. Its top node holds the
  roots: the current directory under the empty name, and the directories \<open>/\<close> and
  \<open>//\<close>. Names are not interpreted further: there are no links, and \<open>..\<close> is a name
  like another. Permissions are not modelled, so the errors are those of the shape of
  the tree.
\<close>

datatype node = File | Dir "string \<rightharpoonup> node"

primrec lookup :: "node \<Rightarrow> string list \<Rightarrow> exn + node" where
  "lookup n [] = Inr n"
| "lookup n (x # xs) =
     (case n of
        File \<Rightarrow> Inl NotADirectoryError
      | Dir entries \<Rightarrow>
          (case entries x of None \<Rightarrow> Inl FileNotFoundError | Some c \<Rightarrow> lookup c xs))"

primrec replace :: "node \<Rightarrow> string list \<Rightarrow> node \<Rightarrow> node" where
  \<comment> \<open>The tree with the node at the end of an existing walk replaced.\<close>
  "replace n [] m = m"
| "replace n (x # xs) m =
     (case n of
        File \<Rightarrow> File
      | Dir entries \<Rightarrow>
          (case entries x of None \<Rightarrow> n | Some c \<Rightarrow> Dir (entries(x \<mapsto> replace c xs m))))"

definition os_stat :: "node \<Rightarrow> posix_path \<Rightarrow> exn + node" where
  "os_stat fs p = lookup fs (names p)"

definition is_dir :: "node \<Rightarrow> posix_path \<Rightarrow> bool" where
  "is_dir fs p = (case os_stat fs p of Inr (Dir _) \<Rightarrow> True | _ \<Rightarrow> False)"

definition os_mkdir :: "node \<Rightarrow> posix_path \<Rightarrow> exn + node" where
  \<comment> \<open>\<open>os.mkdir\<close>: the directory that is to hold the new one is walked to first
      (\<open>ENOENT\<close>, \<open>ENOTDIR\<close>), then the name must be free (\<open>EEXIST\<close>); the new
      directory is empty.\<close>
  "os_mkdir fs p =
     (let dir = butlast (names p); name = last (names p)
      in case lookup fs dir of
           Inl e \<Rightarrow> Inl e
         | Inr File \<Rightarrow> Inl NotADirectoryError
         | Inr (Dir entries) \<Rightarrow>
             (case entries name of
                Some _ \<Rightarrow> Inl FileExistsError
              | None \<Rightarrow> Inr (replace fs dir (Dir (entries(name \<mapsto> Dir Map.empty))))))"

function mkdir :: "node \<Rightarrow> posix_path \<Rightarrow> bool \<Rightarrow> bool \<Rightarrow> node \<times> (exn + unit)" where
  \<comment> \<open>\<open>Path.mkdir(parents, exist_ok)\<close> of \<open>pathlib\<close>: \<open>os.mkdir\<close>; on
      \<open>FileNotFoundError\<close> with \<open>parents\<close> the parent is made first, then the path
      without \<open>parents\<close>; any other \<open>OSError\<close> is passed on unless \<open>exist_ok\<close> holds
      and the path is a directory.\<close>
  "mkdir fs p parents exist_ok =
     (case os_mkdir fs p of
        Inr fs' \<Rightarrow> (fs', Inr ())
      | Inl FileNotFoundError \<Rightarrow>
          if \<not> parents \<or> parent p = p then (fs, Inl FileNotFoundError)
          else (case mkdir fs (parent p) True True of
                  (fs', Inl e) \<Rightarrow> (fs', Inl e)
                | (fs', Inr _) \<Rightarrow> mkdir fs' p False exist_ok)
      | Inl e \<Rightarrow> if \<not> exist_ok \<or> \<not> is_dir fs p then (fs, Inl e) else (fs, Inr ()))"
  by pat_completeness auto
termination
  by (relation "measure (\<lambda>(fs, p, parents, exist_ok).
                   2 * length (parts p) + (if parents then 1 else 0))")
     (auto simp: parent_def split: list.splits)

declare mkdir.simps [simp del]

definition open_append :: "node \<Rightarrow> posix_path \<Rightarrow> exn + node" where
  \<comment> \<open>Opening a file for appending, as \<open>logging.FileHandler\<close> does: the file is
      created when the name is free in an existing directory.\<close>
  "open_append fs p =
     (let dir = butlast (names p); name = last (names p)
      in if parts p = [] then Inl IsADirectoryError
         else case lookup fs dir of
           Inl e \<Rightarrow> Inl e
         | Inr File \<Rightarrow> Inl NotADirectoryError
         | Inr (Dir entries) \<Rightarrow>
             (case entries name of
                Some File \<Rightarrow> Inr fs
              | Some (Dir _) \<Rightarrow> Inl IsADirectoryError
              | None \<Rightarrow> Inr (replace fs dir (Dir (entries(name \<mapsto> File))))))"

section \<open>The shared state of an evaluation\<close>

record config =
  workspace_mount_path :: string
  workspace_base :: string

datatype level = INFO | ERROR

datatype handler = ConsoleHandler | FileHandler string string | OtherHandler string

datatype user_response_fn = codeact_user_response | monologue_user_response

record run_args =
  arg_agent :: string
  arg_instruction :: string
  arg_max_iterations :: nat
  arg_fake_user_response_fn :: "user_response_fn option"
  arg_sid :: nat

text \<open>
  What a run of \<open>process_instance\<close> reads and writes outside its own variables: the
  process-wide configuration object, the file system, the handlers of the logger and
  the records it was given, and the calls of the agent loop made so far, with their
  arguments.
\<close>

record world =
  config :: config
  fs :: node
  handlers :: "handler list"
  log_records :: "(level \<times> string) list"
  agent_runs :: "run_args list"

record agent =
  class_name :: string

record metadata =
  agent_class :: string
  llm_config :: string
  max_iterations :: nat
  eval_output_dir :: string

text \<open>
  The terminal state of the agent loop, as far as \<open>process_instance\<close> reads it: the
  last message of the agent, the metrics (absent when \<open>state.metrics\<close> is empty), the
  history as pairs, and the last error.
\<close>

record State =
  last_agent_message :: string
  metrics :: "string option"
  history_pairs :: "(string \<times> string) list"
  last_error :: "string option"

text \<open>
  The collaborators: \<open>make_agent\<close> is \<open>Agent.get_cls(metadata.agent_class)(llm=...)\<close>,
  \<open>getpid\<close> is \<open>os.getpid()\<close>, and \<open>run_agent_controller\<close> is the agent loop run to
  its end. The agent loop may change everything in the world, raise, or return no state.
\<close>

record env =
  make_agent :: "metadata \<Rightarrow> exn + agent"
  getpid :: nat
  run_agent_controller :: "run_args \<Rightarrow> world \<Rightarrow> world \<times> (exn + State option)"

record gpqa_instance = prepared +
  instance_id :: nat
  task_id :: nat

record output_record =
  out_task_id :: nat
  out_instance_id :: nat
  out_instruction :: string
  out_metadata :: metadata
  out_history :: "(string \<times> string) list"
  out_metrics :: "string option"
  out_error :: "string option"
  out_test_result :: bool

definition AGENT_CLS_TO_FAKE_USER_RESPONSE_FN :: "string \<rightharpoonup> user_response_fn" where
  "AGENT_CLS_TO_FAKE_USER_RESPONSE_FN =
     map_of [(''CodeActAgent'', codeact_user_response),
             (''MonologueAgent'', monologue_user_response)]"

definition instruction_text :: "string \<Rightarrow> string \<Rightarrow> string \<Rightarrow> string \<Rightarrow> string \<Rightarrow> string" where
  \<comment> \<open>The f-string of the instruction: the question, then the four choices.\<close>
  "instruction_text q a b c d =
     ''\<newline>'' @
     ''        What is the correct answer to this question:\<newline>'' @
     ''\<newline>'' @
     ''        '' @
     q @
     ''\<newline>'' @
     ''\<newline>'' @
     ''\<newline>'' @
     ''        Choices:\<newline>'' @
     ''\<newline>'' @
     ''        (A) '' @
     a @
     ''\<newline>'' @
     ''\<newline>'' @
     ''        (B) '' @
     b @
     ''\<newline>'' @
     ''\<newline>'' @
     ''        (C) '' @
     c @
     ''\<newline>'' @
     ''\<newline>'' @
     ''        (D) '' @
     d @
     ''\<newline>'' @
     ''\<newline>'' @
     ''        \<newline>'' @
     ''\<newline>'' @
     ''\<newline>'' @
     ''\<newline>'' @
     ''        MOST IMPORTANT: Format your response as follows:\<newline>'' @
     ''        <<FINAL_ANSWER||\<newline>'' @
     ''        <insert correct answer here, must be one of A, B, C, D> '' @
     ''(Please dont use any additional characters. Just the letter of t'' @
     ''he correct answer (A/B/C/D).)\<newline>'' @
     ''        ||FINAL_ANSWER>>\<newline>'' @
     ''\<newline>'' @
     ''        Additional Instructions:\<newline>'' @
     ''        - You should ONLY interact with the environment provided'' @
     '' to you AND NEVER ASK FOR HUMAN HELP.\<newline>'' @
     ''        ''"

definition codeact_suffix :: string where
  "codeact_suffix =
     ''\<newline>'' @
     ''\<newline>'' @
     '' SUPER IMPORTANT: When you think you have solved the question, f'' @
     ''irst report it back to the user in the requested format. Only on'' @
     ''ce that is done, in the next turn, please run the following comm'' @
     ''and: <execute_bash> exit </execute_bash>.\<newline>''"

definition AGENT_CLS_TO_INST_SUFFIX :: "string \<rightharpoonup> string" where
  "AGENT_CLS_TO_INST_SUFFIX = map_of [(''CodeActAgent'', codeact_suffix)]"

section \<open>Evaluating one instance\<close>

definition logger_info :: "string \<Rightarrow> world \<Rightarrow> world" where
  "logger_info msg w = w\<lparr>log_records := log_records w @ [(INFO, msg)]\<rparr>"

definition logger_error :: "string \<Rightarrow> world \<Rightarrow> world" where
  "logger_error msg w = w\<lparr>log_records := log_records w @ [(ERROR, msg)]\<rparr>"

definition list_getitem :: "'a list \<Rightarrow> nat \<Rightarrow> exn + 'a" where
  \<comment> \<open>\<open>xs[i]\<close> for a non-negative index.\<close>
  "list_getitem xs i = (if i < length xs then Inr (xs ! i) else Inl IndexError)"

definition eval_workspace :: "string \<Rightarrow> nat \<Rightarrow> string" where
  \<comment> \<open>The two \<open>os.path.join\<close> calls that name the workspace of the process.\<close>
  "eval_workspace mount pid =
     (let path = os_path_join mount [''_eval_workspace''];
          path = os_path_join path [str pid]
      in path)"

definition setup_workspace :: "env \<Rightarrow> world \<Rightarrow> world \<times> (exn + string)" where
  \<comment> \<open>The directory is made, then the two fields of the configuration point to it.\<close>
  "setup_workspace ev w =
     (let path = eval_workspace (workspace_mount_path (config w)) (getpid ev)
      in case mkdir (fs w) (Path path) True True of
           (fs', Inl e) \<Rightarrow> (w\<lparr>fs := fs'\<rparr>, Inl e)
         | (fs', Inr _) \<Rightarrow>
             (w\<lparr>fs := fs',
                config := (config w)\<lparr>workspace_base := path, workspace_mount_path := path\<rparr>\<rparr>,
              Inr path))"

definition setup_logger :: "gpqa_instance \<Rightarrow> metadata \<Rightarrow> bool \<Rightarrow> world \<Rightarrow> world \<times> (exn + unit)" where
  \<comment> \<open>With \<open>reset_logger\<close>: the handlers are removed, the console handler prints one
      line, the handlers are removed again and a file handler on the log file of the
      instance is added; opening that file may fail. Without: one line is logged.\<close>
  "setup_logger inst md reset_logger w =
     (if reset_logger then
        (let log_file = os_path_join (eval_output_dir md)
                          [''logs'', ''instance_'' @ str (instance_id inst) @ ''.log''];
             w1 = w\<lparr>handlers := []\<rparr>;
             w2 = w1\<lparr>handlers := handlers w1 @ [ConsoleHandler]\<rparr>;
             w3 = logger_info
                    (''Starting evaluation for instance '' @ str (instance_id inst) @
                     ''.\<newline>Hint: run '' @ [CHR 0x22] @ ''tail -f '' @ log_file @ [CHR 0x22] @
                     '' to see live logs in a separate shell'') w2;
             w4 = w3\<lparr>handlers := []\<rparr>
         in case open_append (fs w4) (Path log_file) of
              Inl e \<Rightarrow> (w4, Inl e)
            | Inr fs' \<Rightarrow>
                (w4\<lparr>fs := fs',
                    handlers := handlers w4 @
                      [FileHandler log_file ''%(asctime)s - %(levelname)s - %(message)s'']\<rparr>,
                 Inr ()))
      else
        (logger_info (''Starting evaluation for instance '' @ str (instance_id inst) @ ''.'') w,
         Inr ()))"

definition build_instruction :: "gpqa_instance \<Rightarrow> string \<Rightarrow> exn + string" where
  \<comment> \<open>The instruction: the f-string, whose four choices are read by index, then the
      suffix registered for the class of the agent, a \<open>KeyError\<close> without one.\<close>
  "build_instruction inst agent_cls =
     (case list_getitem (choices inst) 0 of Inl e \<Rightarrow> Inl e | Inr a \<Rightarrow>
     (case list_getitem (choices inst) 1 of Inl e \<Rightarrow> Inl e | Inr b \<Rightarrow>
     (case list_getitem (choices inst) 2 of Inl e \<Rightarrow> Inl e | Inr c \<Rightarrow>
     (case list_getitem (choices inst) 3 of Inl e \<Rightarrow> Inl e | Inr d \<Rightarrow>
     (case getitem AGENT_CLS_TO_INST_SUFFIX agent_cls of
        Inl e \<Rightarrow> Inl e
      | Inr inst_suffix \<Rightarrow> Inr (instruction_text (question inst) a b c d @ inst_suffix))))))"

definition score :: "gpqa_instance \<Rightarrow> metadata \<Rightarrow> string \<Rightarrow> State \<Rightarrow> world \<Rightarrow> world \<times> (exn + output_record)" where
  \<comment> \<open>After the assertion: the last message of the agent is logged and scored, and the
      output record is put together. The later test \<open>state is None\<close> cannot hold here.\<close>
  "score inst md instruction state w =
     (let final_message = last_agent_message state;
          w' = logger_info (''Final message generated by the agent: '' @ final_message) w;
          test_result = get_test_result final_message (correct_solution inst)
      in (w',
          Inr \<lparr>out_task_id = task_id inst,
               out_instance_id = instance_id inst,
               out_instruction = instruction,
               out_metadata = md,
               out_history = history_pairs state,
               out_metrics = metrics state,
               out_error = (case last_error state of
                              None \<Rightarrow> None
                            | Some e \<Rightarrow> if e = [] then None else Some e),
               out_test_result = test_result\<rparr>))"

definition run_agent :: "env \<Rightarrow> agent \<Rightarrow> gpqa_instance \<Rightarrow> metadata \<Rightarrow> string \<Rightarrow> world \<Rightarrow> world \<times> (exn + output_record)" where
  \<comment> \<open>The agent loop is called with the callback that \<open>.get\<close> finds for the class of the
      agent (\<open>None\<close> without an entry) and the call is recorded; an exception of the loop
      is passed on, and a missing state fails the assertion.\<close>
  "run_agent ev ag inst md instruction w =
     (let args = \<lparr>arg_agent = class_name ag,
                  arg_instruction = instruction,
                  arg_max_iterations = max_iterations md,
                  arg_fake_user_response_fn = AGENT_CLS_TO_FAKE_USER_RESPONSE_FN (class_name ag),
                  arg_sid = instance_id inst\<rparr>;
          (w1, r) = run_agent_controller ev args w;
          w2 = w1\<lparr>agent_runs := agent_runs w @ [args]\<rparr>
      in case r of
           Inl e \<Rightarrow> (w2, Inl e)
         | Inr None \<Rightarrow> (w2, Inl (AssertionError ''State should not be None.''))
         | Inr (Some state) \<Rightarrow> score inst md instruction state w2)"

definition try_block :: "env \<Rightarrow> agent \<Rightarrow> gpqa_instance \<Rightarrow> metadata \<Rightarrow> bool \<Rightarrow> world \<Rightarrow> world \<times> (exn + output_record)" where
  "try_block ev ag inst md reset_logger w =
     (case setup_workspace ev w of
        (w1, Inl e) \<Rightarrow> (w1, Inl e)
      | (w1, Inr path) \<Rightarrow>
     (case setup_logger inst md reset_logger w1 of
        (w2, Inl e) \<Rightarrow> (w2, Inl e)
      | (w2, Inr _) \<Rightarrow>
     (let w3 = logger_info (''Process-specific workspace mounted at '' @ path) w2
      in case build_instruction inst (class_name ag) of
           Inl e \<Rightarrow> (w3, Inl e)
         | Inr instruction \<Rightarrow> run_agent ev ag inst md instruction w3)))"

definition process_instance :: "env \<Rightarrow> gpqa_instance \<Rightarrow> metadata \<Rightarrow> bool \<Rightarrow> world \<Rightarrow> world \<times> (exn + output_record)" where
  \<comment> \<open>The agent is made before the \<open>try\<close>. The two fields are saved, the \<open>try\<close> block
      runs, \<open>except Exception\<close> logs the failure and raises it again, and \<open>finally\<close>
      writes the saved values back on every way out.\<close>
  "process_instance ev inst md reset_logger w =
     (case make_agent ev md of
        Inl e \<Rightarrow> (w, Inl e)
      | Inr ag \<Rightarrow>
          (let old_workspace_mount_path = workspace_mount_path (config w);
               old_workspace_base = workspace_base (config w);
               (w1, r) = try_block ev ag inst md reset_logger w;
               w2 = (case r of
                       Inl e \<Rightarrow> if is_Exception e then logger_error ''Process instance failed'' w1
                                else w1
                     | Inr _ \<Rightarrow> w1);
               w3 = w2\<lparr>config := (config w2)\<lparr>workspace_mount_path := old_workspace_mount_path,
                                              workspace_base := old_workspace_base\<rparr>\<rparr>
           in (w3, r)))"

section \<open>A sample run\<close>

text \<open>
  Concrete values to run the model on: a world whose configuration points to \<open>/ws\<close>
  and \<open>/base\<close> and whose file system holds \<open>/ws\<close> and \<open>/out/logs\<close>, the instance
  of the specification's example, and collaborators that make an agent of a given
  class. The agent loop of \<open>sample_env\<close> overwrites the configuration before it
  returns its outcome.
\<close>

definition sample_world :: world where
  "sample_world =
     \<lparr>config = \<lparr>workspace_mount_path = ''/ws'', workspace_base = ''/base''\<rparr>,
      fs = Dir [''/'' \<mapsto> Dir [''ws'' \<mapsto> Dir Map.empty,
                              ''out'' \<mapsto> Dir [''logs'' \<mapsto> Dir Map.empty]]],
      handlers = [OtherHandler ''root''],
      log_records = [],
      agent_runs = []\<rparr>"

definition sample_metadata :: metadata where
  "sample_metadata =
     \<lparr>agent_class = ''CodeActAgent'', llm_config = ''llm'', max_iterations = 10,
      eval_output_dir = ''/out''\<rparr>"

definition sample_instance :: gpqa_instance where
  "sample_instance =
     \<lparr>question = ''Capital of France?'',
      choices = [''London'', ''Paris'', ''Rome'', ''Berlin''],
      correct_solution = ''B'',
      instance_id = 3, task_id = 3\<rparr>"

definition sample_state :: State where
  "sample_state =
     \<lparr>last_agent_message = ''It is Paris. <<FINAL_ANSWER||B||FINAL_ANSWER>>'',
      metrics = None, history_pairs = [], last_error = None\<rparr>"

definition sample_env :: "string \<Rightarrow> exn + State option \<Rightarrow> env" where
  "sample_env agent_cls outcome =
     \<lparr>make_agent = (\<lambda>md. Inr \<lparr>class_name = agent_cls\<rparr>),
      getpid = 42,
      run_agent_controller =
        (\<lambda>args w. (w\<lparr>config := \<lparr>workspace_mount_path = ''/elsewhere'',
                                   workspace_base = ''/elsewhere''\<rparr>\<rparr>, outcome))\<rparr>"

section \<open>The matcher finds the first occurrence\<close>

lemma match_at_literals:
  "match_at d (map Literal lit @ ts) s g =
     (if prefix lit s then match_at d ts (drop (length lit) s) g else None)"
  by (induction lit arbitrary: s) (auto split: list.splits)

lemma match_at_closing:
  "match_at d (map Literal cl) = (\<lambda>s g. if prefix cl s then Some g else None)"
  using match_at_literals [of d cl "[]"] by (intro ext) simp

lemma lazy_scan_None:
  "lazy_scan (\<lambda>s g. if prefix cl s then Some g else None) True s acc = None
   \<Longrightarrow> s \<noteq> cap @ cl @ rest"
proof (induction s arbitrary: acc cap)
  case Nil
  then show ?case by (auto split: if_splits)
next
  case (Cons x xs)
  from Cons.prems have np: "\<not> prefix cl (x # xs)"
    and rec: "lazy_scan (\<lambda>s g. if prefix cl s then Some g else None) True xs (x # acc) = None"
    by (auto split: if_splits option.splits)
  show ?case
  proof (cases cap)
    case Nil
    with np show ?thesis by (auto simp: prefix_def)
  next
    case (Cons c cs)
    with Cons.IH [OF rec, of cs] show ?thesis by auto
  qed
qed

lemma lazy_scan_Some:
  "lazy_scan (\<lambda>s g. if prefix cl s then Some g else None) True s acc = Some g
   \<Longrightarrow> \<exists>cap rest. s = cap @ cl @ rest \<and> g = rev acc @ cap \<and>
         (\<forall>cap' rest'. s = cap' @ cl @ rest' \<longrightarrow> length cap \<le> length cap')"
proof (induction s arbitrary: acc)
  case Nil
  then show ?case by (auto split: if_splits)
next
  case (Cons x xs)
  show ?case
  proof (cases "prefix cl (x # xs)")
    case True
    with Cons.prems have "g = rev acc" by simp
    moreover from True obtain rest where "x # xs = [] @ cl @ rest" by (auto simp: prefix_def)
    ultimately show ?thesis by (metis append_Nil2 le0 list.size(3))
  next
    case False
    with Cons.prems
    have rec: "lazy_scan (\<lambda>s g. if prefix cl s then Some g else None) True xs (x # acc) = Some g"
      by simp
    from Cons.IH [OF rec] obtain cap rest where
      d: "xs = cap @ cl @ rest" and g: "g = rev (x # acc) @ cap"
      and m: "\<forall>cap' rest'. xs = cap' @ cl @ rest' \<longrightarrow> length cap \<le> length cap'"
      by blast
    have "\<forall>cap' rest'. x # xs = cap' @ cl @ rest' \<longrightarrow> length (x # cap) \<le> length cap'"
    proof (intro allI impI)
      fix cap' rest' assume e: "x # xs = cap' @ cl @ rest'"
      show "length (x # cap) \<le> length cap'"
      proof (cases cap')
        case Nil
        with e False show ?thesis by (auto simp: prefix_def)
      next
        case (Cons c cs)
        with e have "xs = cs @ cl @ rest'" by simp
        with m have "length cap \<le> length cs" by blast
        with Cons show ?thesis by simp
      qed
    qed
    with d g show ?thesis
      by (intro exI [of _ "x # cap"] exI [of _ rest]) simp
  qed
qed

lemma match_at_pattern:
  "match_at True pattern s [] =
     (if prefix marker_open s
      then lazy_scan (\<lambda>s g. if prefix marker_close s then Some g else None) True
             (drop (length marker_open) s) []
      else None)"
  unfolding pattern_def
  by (simp only: match_at_literals match_at.simps token.case match_at_closing append_Cons append_Nil)

lemma match_at_pattern_None:
  assumes "match_at True pattern s [] = None"
  shows "s \<noteq> marker_open @ cap @ marker_close @ post"
proof
  assume e: "s = marker_open @ cap @ marker_close @ post"
  then have "prefix marker_open s" and "drop (length marker_open) s = cap @ marker_close @ post"
    by simp_all
  with assms lazy_scan_None [of marker_close "cap @ marker_close @ post" "[]" cap post]
  show False by (simp add: match_at_pattern)
qed

lemma match_at_pattern_Some:
  assumes "match_at True pattern s [] = Some g"
  shows "\<exists>post. s = marker_open @ g @ marker_close @ post \<and>
           (\<forall>cap' post'. s = marker_open @ cap' @ marker_close @ post' \<longrightarrow> length g \<le> length cap')"
proof -
  from assms have p: "prefix marker_open s"
    and l: "lazy_scan (\<lambda>s g. if prefix marker_close s then Some g else None) True
              (drop (length marker_open) s) [] = Some g"
    by (auto simp: match_at_pattern split: if_splits)
  from p obtain t where s: "s = marker_open @ t" by (auto simp: prefix_def)
  with l lazy_scan_Some [of marker_close t "[]" g] obtain cap rest where
    t: "t = cap @ marker_close @ rest" and g: "g = cap"
    and m: "\<forall>cap' rest'. t = cap' @ marker_close @ rest' \<longrightarrow> length cap \<le> length cap'"
    by auto
  from s t g m show ?thesis by auto
qed

lemma re_search_None:
  "re_search True pattern s = None \<Longrightarrow> \<not> occurrence s pre cap post"
proof (induction s arbitrary: pre)
  case Nil
  then show ?case
    using match_at_pattern_None [of "[]" cap post] by (auto simp: occurrence_def)
next
  case (Cons x xs)
  from Cons.prems have m: "match_at True pattern (x # xs) [] = None"
    and r: "re_search True pattern xs = None"
    by (auto split: option.splits)
  show ?case
  proof (cases pre)
    case Nil
    with match_at_pattern_None [OF m, of cap post] show ?thesis by (simp add: occurrence_def)
  next
    case (Cons p ps)
    with Cons.IH [OF r, of ps] show ?thesis by (auto simp: occurrence_def)
  qed
qed

lemma re_search_Some:
  "re_search True pattern s = Some g \<Longrightarrow> \<exists>pre post. first_occurrence s pre g post"
proof (induction s)
  case Nil
  then have "match_at True pattern [] [] = Some g" by simp
  from match_at_pattern_Some [OF this] show ?case
    by (auto simp: first_occurrence_def occurrence_def)
next
  case (Cons x xs)
  show ?case
  proof (cases "match_at True pattern (x # xs) []")
    case (Some g')
    with Cons.prems have "g' = g" by simp
    with Some match_at_pattern_Some [of "x # xs" g] obtain post where
      e: "x # xs = marker_open @ g @ marker_close @ post"
      and m: "\<forall>cap' post'. x # xs = marker_open @ cap' @ marker_close @ post' \<longrightarrow> length g \<le> length cap'"
      by auto
    have "first_occurrence (x # xs) [] g post"
      unfolding first_occurrence_def occurrence_def
    proof (intro conjI allI impI)
      show "x # xs = [] @ marker_open @ g @ marker_close @ post" using e by simp
    next
      fix pre' cap' post'
      assume "x # xs = pre' @ marker_open @ cap' @ marker_close @ post'"
      with m show "length ([]::string) < length pre' \<or>
                   (length ([]::string) = length pre' \<and> length g \<le> length cap')"
        by (cases pre') auto
    qed
    then show ?thesis by blast
  next
    case None
    with Cons.prems have "re_search True pattern xs = Some g" by simp
    from Cons.IH [OF this] obtain pre post where f: "first_occurrence xs pre g post" by blast
    have "first_occurrence (x # xs) (x # pre) g post"
      unfolding first_occurrence_def occurrence_def
    proof (intro conjI allI impI)
      show "x # xs = (x # pre) @ marker_open @ g @ marker_close @ post"
        using f by (simp add: first_occurrence_def occurrence_def)
    next
      fix pre' cap' post'
      assume e: "x # xs = pre' @ marker_open @ cap' @ marker_close @ post'"
      show "length (x # pre) < length pre' \<or>
            (length (x # pre) = length pre' \<and> length g \<le> length cap')"
      proof (cases pre')
        case Nil
        with e match_at_pattern_None [OF None, of cap' post'] show ?thesis by simp
      next
        case (Cons p ps)
        with e have "occurrence xs ps cap' post'" by (simp add: occurrence_def)
        with f have "length pre < length ps \<or> (length pre = length ps \<and> length g \<le> length cap')"
          unfolding first_occurrence_def by blast
        with Cons show ?thesis by auto
      qed
    qed
    then show ?thesis by blast
  qed
qed

lemma no_occurrence_no_match:
  assumes "\<forall>pre cap post. \<not> occurrence s pre cap post"
  shows "re_search True pattern s = None"
proof (cases "re_search True pattern s")
  case None
  then show ?thesis .
next
  case (Some g)
  from re_search_Some [OF this] assms show ?thesis
    by (auto simp: first_occurrence_def)
qed

section \<open>The answer extractor\<close>

text \<open>
  Claim C1. For every input text, \<open>parse_final_answer\<close> returns the capture of the first
  occurrence of the marker, with the whitespace at both ends removed, whatever
  characters the capture holds (line feeds included); when the text has no occurrence,
  it returns the sentinel \<open>No final answer found in the provided string.\<close>
\<close>

theorem parse_final_answer_first_occurrence:
  "(\<exists>pre cap post. first_occurrence s pre cap post \<and> parse_final_answer s = strip cap)
   \<or> ((\<forall>pre cap post. \<not> occurrence s pre cap post)
       \<and> parse_final_answer s = ''No final answer found in the provided string.'')"
proof (cases "re_search True pattern s")
  case None
  then show ?thesis
    using re_search_None [of s] by (simp add: parse_final_answer_def no_final_answer_def)
next
  case (Some g)
  then show ?thesis
    using re_search_Some [of s g] by (auto simp: parse_final_answer_def)
qed

theorem parse_final_answer_first_occurrence_witness:
  "parse_final_answer
     ''Done.\<newline><<FINAL_ANSWER||\<newline>  C  \<newline>||FINAL_ANSWER>> bye ||FINAL_ANSWER>>'' = ''C''
   \<and> parse_final_answer ''<<FINAL_ANSWER||  C  ||FINAL_ANSWER>>'' = ''C''
   \<and> parse_final_answer ''no marker here'' = ''No final answer found in the provided string.''"
  using parse_final_answer_first_occurrence
          [of "''Done.\<newline><<FINAL_ANSWER||\<newline>  C  \<newline>||FINAL_ANSWER>> bye ||FINAL_ANSWER>>''"]
        parse_final_answer_first_occurrence [of "''no marker here''"]
  by (simp add: parse_final_answer_def pattern_def marker_open_def marker_close_def
        no_final_answer_def strip_def isspace_def)

section \<open>A missing final answer scores as incorrect\<close>

text \<open>
  Claim C4. For every text without an occurrence of the marker, the empty text
  included, and every ground truth among \<open>A\<close>, \<open>B\<close>, \<open>C\<close>, \<open>D\<close>, \<open>get_test_result\<close>
  returns false: the sentinel differs from each of the four letters. The function
  is total on strings, so it raises nothing.
\<close>

theorem get_test_result_no_marker:
  assumes "\<forall>pre cap post. \<not> occurrence model_output pre cap post"
    and "ground_truth \<in> {''A'', ''B'', ''C'', ''D''}"
  shows "get_test_result model_output ground_truth = False"
  using assms(2) no_occurrence_no_match [OF assms(1)]
  by (auto simp: get_test_result_def compare_answers_def parse_final_answer_def
        no_final_answer_def)

theorem get_test_result_no_marker_witness:
  "get_test_result '''' ''A'' = False \<and> get_test_result ''no marker here'' ''D'' = False"
proof -
  have e: "\<forall>pre cap post. \<not> occurrence '''' pre cap post"
    by (simp add: occurrence_def marker_open_def)
  have "re_search True pattern ''no marker here'' = None"
    by (simp add: pattern_def marker_open_def marker_close_def)
  then have n: "\<forall>pre cap post. \<not> occurrence ''no marker here'' pre cap post"
    using re_search_None by blast
  show ?thesis
    using get_test_result_no_marker [OF e, of "''A''"]
          get_test_result_no_marker [OF n, of "''D''"]
    by simp
qed

section \<open>The scorer\<close>

text \<open>
  Claim C5. The scorer returns true exactly when the predicted answer and the ground
  truth are the same string; nothing is normalised, so \<open>A\<close> against \<open>A\<close> is true and
  \<open>a\<close> against \<open>A\<close> is false.
\<close>

theorem compare_answers_exact:
  "compare_answers predicted_answer ground_truth = (predicted_answer = ground_truth)
   \<and> compare_answers ''A'' ''A'' = True
   \<and> compare_answers ''a'' ''A'' = False"
  by (simp add: compare_answers_def)

section \<open>The shuffle permutes and the index is the first hit\<close>

lemma shuffle_loop_permutes:
  "k < length x \<Longrightarrow> \<forall>n>0. randbelow n < n \<Longrightarrow>
   \<exists>y. shuffle_loop randbelow k x = Inr y \<and> mset y = mset x"
proof (induction k arbitrary: x)
  case 0
  then show ?case by simp
next
  case (Suc k)
  let ?j = "randbelow (Suc k + 1)"
  have j: "?j < length x"
  proof -
    from Suc.prems(2) have "?j < Suc k + 1" by simp
    with Suc.prems(1) show ?thesis by simp
  qed
  let ?x' = "x[Suc k := x ! ?j, ?j := x ! Suc k]"
  from Suc.prems have "k < length ?x'" by simp
  from Suc.IH [OF this Suc.prems(2)] obtain y where
    y: "shuffle_loop randbelow k ?x' = Inr y" and m: "mset y = mset ?x'" by blast
  from j Suc.prems have "mset ?x' = mset x" by (simp add: mset_swap)
  with y m j Suc.prems show ?case by (simp add: Let_def)
qed

lemma shuffle_permutes:
  assumes "\<forall>n>0. randbelow n < n"
  shows "\<exists>y. shuffle randbelow x = Inr y \<and> mset y = mset x"
proof (cases x)
  case Nil
  then show ?thesis by (simp add: shuffle_def)
next
  case (Cons a as)
  then have "length x - 1 < length x" by simp
  from shuffle_loop_permutes [OF this assms] show ?thesis by (simp add: shuffle_def)
qed

lemma list_index_first:
  "v \<in> set xs \<Longrightarrow>
   \<exists>i. list_index xs v = Inr i \<and> i < length xs \<and> xs ! i = v \<and> (\<forall>j<i. xs ! j \<noteq> v)"
proof (induction xs)
  case Nil
  then show ?case by simp
next
  case (Cons y ys)
  show ?case
  proof (cases "y = v")
    case True
    then show ?thesis by simp
  next
    case False
    with Cons obtain i where i: "list_index ys v = Inr i" "i < length ys" "ys ! i = v"
      "\<forall>j<i. ys ! j \<noteq> v" by auto
    have "\<forall>j<Suc i. (y # ys) ! j \<noteq> v"
    proof (intro allI impI)
      fix j assume "j < Suc i"
      with False i(4) show "(y # ys) ! j \<noteq> v" by (cases j) auto
    qed
    with False i show ?thesis by simp
  qed
qed

lemma chr_letters:
  "chr 65 = ''A''" "chr 66 = ''B''" "chr 67 = ''C''" "chr 68 = ''D''"
  by (code_simp+)

lemma chr_letter_cases: "i < 4 \<Longrightarrow> chr (65 + i) \<in> {''A'', ''B'', ''C'', ''D''}"
proof -
  assume "i < 4"
  then have "i = 0 \<or> i = 1 \<or> i = 2 \<or> i = 3" by arith
  with chr_letters show ?thesis by auto
qed

lemma ord_chr: "i < 4 \<Longrightarrow> of_char (hd (chr (65 + i))) - 65 = i"
  by (simp add: chr_def)

lemma convert_instance_dict_ok:
  assumes rb: "\<forall>n>0. randbelow n < n"
    and q: "instance ''Question'' = Some q"
    and c: "instance ''Correct Answer'' = Some c"
    and i1: "instance ''Incorrect Answer 1'' = Some i1"
    and i2: "instance ''Incorrect Answer 2'' = Some i2"
    and i3: "instance ''Incorrect Answer 3'' = Some i3"
  shows "\<exists>ys idx. convert_instance_dict randbelow instance =
            Inr \<lparr>question = q, choices = ys, correct_solution = chr (65 + idx)\<rparr>
          \<and> mset ys = mset [c, i1, i2, i3] \<and> idx < 4 \<and> ys ! idx = c \<and> (\<forall>j<idx. ys ! j \<noteq> c)"
proof -
  from shuffle_permutes [OF rb, of "[c, i1, i2, i3]"] obtain ys where
    s: "shuffle randbelow [c, i1, i2, i3] = Inr ys" and m: "mset ys = mset [c, i1, i2, i3]"
    by blast
  from m have "length ys = length [c, i1, i2, i3]" by (metis size_mset)
  then have len: "length ys = 4" by simp
  from m have "c \<in> set ys" by (metis list.set_intros(1) set_mset_mset)
  from list_index_first [OF this] len obtain idx where
    i: "list_index ys c = Inr idx" "idx < 4" "ys ! idx = c" "\<forall>j<idx. ys ! j \<noteq> c" by auto
  from q c i1 i2 i3 s i(1) have
    "convert_instance_dict randbelow instance =
       Inr \<lparr>question = q, choices = ys, correct_solution = chr (65 + idx)\<rparr>"
    by (simp add: convert_instance_dict_def getitem_def)
  with m i show ?thesis by blast
qed

lemma convert_instance_dict_missing:
  assumes "\<exists>k\<in>set record_fields. instance k = None"
  shows "\<exists>k\<in>set record_fields. instance k = None
           \<and> convert_instance_dict randbelow instance = Inl (KeyError k)"
  using assms
  by (auto simp: convert_instance_dict_def getitem_def record_fields_def split: option.splits)

section \<open>The prepared instance\<close>

text \<open>
  Claim C2. For every raw record with a question, a correct answer and three incorrect
  answers, and every run of the shuffle (every random source that keeps the contract of
  \<open>randbelow\<close>), \<open>convert_instance_dict\<close> returns an instance whose four choices are a
  permutation, as multisets, of the four source answers, whose correct letter is one of
  \<open>A\<close>, \<open>B\<close>, \<open>C\<close>, \<open>D\<close> and is \<open>chr(65 + index)\<close>, and whose choice at index
  \<open>ord(correct_letter) - 65\<close> is the correct answer text.
\<close>

theorem convert_instance_dict_permutation:
  assumes "\<forall>n>0. randbelow n < n"
    and "instance ''Question'' = Some q"
    and "instance ''Correct Answer'' = Some c"
    and "instance ''Incorrect Answer 1'' = Some i1"
    and "instance ''Incorrect Answer 2'' = Some i2"
    and "instance ''Incorrect Answer 3'' = Some i3"
  shows "\<exists>out. convert_instance_dict randbelow instance = Inr out
           \<and> length (choices out) = 4
           \<and> mset (choices out) = mset [c, i1, i2, i3]
           \<and> correct_solution out \<in> {''A'', ''B'', ''C'', ''D''}
           \<and> (\<exists>index<4. correct_solution out = chr (65 + index))
           \<and> choices out ! (of_char (hd (correct_solution out)) - 65) = c"
proof -
  from convert_instance_dict_ok [OF assms] obtain ys idx where
    r: "convert_instance_dict randbelow instance =
          Inr \<lparr>question = q, choices = ys, correct_solution = chr (65 + idx)\<rparr>"
    and m: "mset ys = mset [c, i1, i2, i3]" and i: "idx < 4" "ys ! idx = c"
    by blast
  from m have "length ys = length [c, i1, i2, i3]" by (metis size_mset)
  then have "length ys = 4" by simp
  with r m i chr_letter_cases [OF i(1)] ord_chr [OF i(1)] show ?thesis by auto
qed

theorem convert_instance_dict_permutation_witness:
  "convert_instance_dict (\<lambda>n. if n = 2 then 0 else n - 1)
     (map_of [(''Question'', ''Capital of France?''), (''Correct Answer'', ''Paris''),
        (''Incorrect Answer 1'', ''London''), (''Incorrect Answer 2'', ''Rome''),
        (''Incorrect Answer 3'', ''Berlin'')])
   = Inr \<lparr>question = ''Capital of France?'',
          choices = [''London'', ''Paris'', ''Rome'', ''Berlin''], correct_solution = ''B''\<rparr>"
proof -
  have rb: "\<forall>n>0. (\<lambda>n::nat. if n = 2 then 0 else n - 1) n < n" by simp
  show ?thesis
    using convert_instance_dict_permutation [OF rb,
        of "map_of [(''Question'', ''Capital of France?''), (''Correct Answer'', ''Paris''),
        (''Incorrect Answer 1'', ''London''), (''Incorrect Answer 2'', ''Rome''),
        (''Incorrect Answer 3'', ''Berlin'')]" "''Capital of France?''" "''Paris''"
        "''London''" "''Rome''" "''Berlin''"]
    by (simp add: convert_instance_dict_def getitem_def shuffle_def chr_letters)
qed

section \<open>A correct answer that is also an incorrect answer\<close>

text \<open>
  Claim C10. For every raw record whose correct answer equals one or more of its
  incorrect answers, \<open>convert_instance_dict\<close> still succeeds, and the correct letter is
  the letter of the first index of the shuffled choices that holds the correct answer
  text; the choice at that index is the correct answer text, whichever field the slot
  came from.
\<close>

theorem convert_instance_dict_duplicate_answer:
  assumes "\<forall>n>0. randbelow n < n"
    and "instance ''Question'' = Some q"
    and "instance ''Correct Answer'' = Some c"
    and "instance ''Incorrect Answer 1'' = Some i1"
    and "instance ''Incorrect Answer 2'' = Some i2"
    and "instance ''Incorrect Answer 3'' = Some i3"
    and "c = i1 \<or> c = i2 \<or> c = i3"
  shows "\<exists>out index. convert_instance_dict randbelow instance = Inr out
           \<and> index < 4
           \<and> correct_solution out = chr (65 + index)
           \<and> choices out ! index = c
           \<and> (\<forall>j<index. choices out ! j \<noteq> c)"
proof -
  from convert_instance_dict_ok [OF assms(1-6)] obtain ys idx where
    "convert_instance_dict randbelow instance =
          Inr \<lparr>question = q, choices = ys, correct_solution = chr (65 + idx)\<rparr>"
    and "idx < 4" "ys ! idx = c" "\<forall>j<idx. ys ! j \<noteq> c"
    by blast
  then show ?thesis
    by (intro exI [of _ "\<lparr>question = q, choices = ys, correct_solution = chr (65 + idx)\<rparr>"]
          exI [of _ idx]) simp
qed

text \<open>
  The witness: the correct answer \<open>4\<close> is also the third incorrect answer. The shuffle
  exchanges the slot of the correct answer with the slot of the third incorrect answer;
  the letter is \<open>A\<close>, the first index holding \<open>4\<close>, and that slot came from the
  incorrect answer.
\<close>

theorem convert_instance_dict_duplicate_answer_witness:
  "convert_instance_dict (\<lambda>n. if n = 4 then 0 else n - 1)
     (map_of [(''Question'', ''2 + 2?''), (''Correct Answer'', ''4''),
        (''Incorrect Answer 1'', ''3''), (''Incorrect Answer 2'', ''5''),
        (''Incorrect Answer 3'', ''4'')])
   = Inr \<lparr>question = ''2 + 2?'', choices = [''4'', ''3'', ''5'', ''4''],
          correct_solution = ''A''\<rparr>"
proof -
  have rb: "\<forall>n>0. (\<lambda>n::nat. if n = 4 then 0 else n - 1) n < n" by simp
  have dup: "''4'' = ''3'' \<or> ''4'' = ''5'' \<or> ''4'' = ''4''" by simp
  show ?thesis
    using convert_instance_dict_duplicate_answer [OF rb _ _ _ _ _ dup,
        of "map_of [(''Question'', ''2 + 2?''), (''Correct Answer'', ''4''),
        (''Incorrect Answer 1'', ''3''), (''Incorrect Answer 2'', ''5''),
        (''Incorrect Answer 3'', ''4'')]" "''2 + 2?''"]
    by (simp add: convert_instance_dict_def getitem_def shuffle_def chr_letters)
qed

section \<open>Records with missing fields\<close>

text \<open>
  Claim C7, as the program has it. The five fields of a raw record are read in the order
  \<open>Question\<close>, \<open>Correct Answer\<close>, \<open>Incorrect Answer 1\<close>, \<open>2\<close>, \<open>3\<close>. A record that
  lacks one of them fails with the \<open>KeyError\<close> of a missing field (the specification's
  \<open>MalformedRecordError\<close>); a record that has the five of them does not fail, whatever
  the shuffle draws. The four answer fields alone are not enough: without \<open>Question\<close>
  the preparation fails.
\<close>

theorem convert_instance_dict_fields:
  "((\<exists>k\<in>set record_fields. instance k = None) \<longrightarrow>
      (\<exists>k\<in>set record_fields. instance k = None
         \<and> convert_instance_dict randbelow instance = Inl (KeyError k)))
   \<and> ((\<forall>k\<in>set record_fields. instance k \<noteq> None) \<and> (\<forall>n>0. randbelow n < n) \<longrightarrow>
      (\<exists>out. convert_instance_dict randbelow instance = Inr out))"
proof (intro conjI impI)
  assume "\<exists>k\<in>set record_fields. instance k = None"
  then show "\<exists>k\<in>set record_fields. instance k = None
         \<and> convert_instance_dict randbelow instance = Inl (KeyError k)"
    by (rule convert_instance_dict_missing)
next
  assume a: "(\<forall>k\<in>set record_fields. instance k \<noteq> None) \<and> (\<forall>n>0. randbelow n < n)"
  then obtain q c i1 i2 i3 where
    "instance ''Question'' = Some q" "instance ''Correct Answer'' = Some c"
    "instance ''Incorrect Answer 1'' = Some i1" "instance ''Incorrect Answer 2'' = Some i2"
    "instance ''Incorrect Answer 3'' = Some i3"
    by (auto simp: record_fields_def)
  with a convert_instance_dict_ok [of randbelow "instance" q c i1 i2 i3]
  show "\<exists>out. convert_instance_dict randbelow instance = Inr out" by blast
qed

theorem convert_instance_dict_fields_witness:
  "convert_instance_dict (\<lambda>n. 0)
     (map_of [(''Question'', ''Capital of France?''), (''Correct Answer'', ''Paris''),
        (''Incorrect Answer 1'', ''London''), (''Incorrect Answer 3'', ''Berlin'')])
   = Inl (KeyError ''Incorrect Answer 2'')
   \<and> convert_instance_dict (\<lambda>n. 0)
     (map_of [(''Question'', ''Capital of France?''), (''Correct Answer'', ''Paris''),
        (''Incorrect Answer 1'', ''London''), (''Incorrect Answer 2'', ''Rome''),
        (''Incorrect Answer 3'', ''Berlin'')])
   = Inr \<lparr>question = ''Capital of France?'',
          choices = [''London'', ''Rome'', ''Berlin'', ''Paris''], correct_solution = ''D''\<rparr>"
  using convert_instance_dict_fields [of
      "map_of [(''Question'', ''Capital of France?''), (''Correct Answer'', ''Paris''),
        (''Incorrect Answer 1'', ''London''), (''Incorrect Answer 3'', ''Berlin'')]" "\<lambda>n. 0"]
    convert_instance_dict_fields [of
      "map_of [(''Question'', ''Capital of France?''), (''Correct Answer'', ''Paris''),
        (''Incorrect Answer 1'', ''London''), (''Incorrect Answer 2'', ''Rome''),
        (''Incorrect Answer 3'', ''Berlin'')]" "\<lambda>n. 0"]
  by (simp add: convert_instance_dict_def getitem_def shuffle_def chr_letters)

text \<open>
  The claim as the specification states it fails on a record that has the four answer
  fields and no \<open>Question\<close>: the preparation raises \<open>KeyError('Question')\<close>.
\<close>

theorem convert_instance_dict_without_question:
  "map_of [(''Correct Answer'', ''Paris''), (''Incorrect Answer 1'', ''London''),
           (''Incorrect Answer 2'', ''Rome''), (''Incorrect Answer 3'', ''Berlin'')]
     ''Correct Answer'' = Some ''Paris''
   \<and> map_of [(''Correct Answer'', ''Paris''), (''Incorrect Answer 1'', ''London''),
           (''Incorrect Answer 2'', ''Rome''), (''Incorrect Answer 3'', ''Berlin'')]
     ''Incorrect Answer 1'' = Some ''London''
   \<and> map_of [(''Correct Answer'', ''Paris''), (''Incorrect Answer 1'', ''London''),
           (''Incorrect Answer 2'', ''Rome''), (''Incorrect Answer 3'', ''Berlin'')]
     ''Incorrect Answer 2'' = Some ''Rome''
   \<and> map_of [(''Correct Answer'', ''Paris''), (''Incorrect Answer 1'', ''London''),
           (''Incorrect Answer 2'', ''Rome''), (''Incorrect Answer 3'', ''Berlin'')]
     ''Incorrect Answer 3'' = Some ''Berlin''
   \<and> convert_instance_dict (\<lambda>n. 0)
       (map_of [(''Correct Answer'', ''Paris''), (''Incorrect Answer 1'', ''London''),
                (''Incorrect Answer 2'', ''Rome''), (''Incorrect Answer 3'', ''Berlin'')])
     = Inl (KeyError ''Question'')"
  by (simp add: convert_instance_dict_def getitem_def)

section \<open>Making directories\<close>

lemma lookup_append:
  "lookup n (xs @ ys) = (case lookup n xs of Inl e \<Rightarrow> Inl e | Inr m \<Rightarrow> lookup m ys)"
  by (induction xs arbitrary: n) (auto split: node.splits option.splits)


lemma names_snoc: "names p = butlast (names p) @ [last (names p)]"
  by (simp add: names_def)


lemma os_stat_cases:
  "os_stat fsys p =
     (case lookup fsys (butlast (names p)) of
        Inl e \<Rightarrow> Inl e
      | Inr m \<Rightarrow> lookup m [last (names p)])"
proof -
  have "os_stat fsys p = lookup fsys (butlast (names p) @ [last (names p)])"
    unfolding os_stat_def using names_snoc [of p] by simp
  then show ?thesis by (simp only: lookup_append)
qed





lemma mkdir_existing_not_ok:
  assumes "os_stat fsys p = Inr (Dir entries)"
  shows "mkdir fsys p parents False = (fsys, Inl FileExistsError)"
proof -
  from assms obtain es where
    "lookup fsys (butlast (names p)) = Inr (Dir es)" "es (last (names p)) = Some (Dir entries)"
    by (auto simp: os_stat_cases split: sum.splits node.splits option.splits)
  then have "os_mkdir fsys p = Inl FileExistsError" by (simp add: os_mkdir_def)
  then show ?thesis by (simp add: mkdir.simps [of fsys p])
qed

section \<open>The text and the parts of the workspace path\<close>














section \<open>The steps of one evaluation\<close>

lemma agent_runs_logger_info [simp]: "agent_runs (logger_info msg w) = agent_runs w"
  by (simp add: logger_info_def)

lemma agent_runs_logger_error [simp]: "agent_runs (logger_error msg w) = agent_runs w"
  by (simp add: logger_error_def)

lemma agent_runs_setup_workspace: "agent_runs (fst (setup_workspace ev w)) = agent_runs w"
  by (simp add: setup_workspace_def Let_def split: prod.splits sum.splits)

lemma agent_runs_setup_logger:
  "agent_runs (fst (setup_logger inst md reset_logger w)) = agent_runs w"
  by (simp add: setup_logger_def Let_def split: sum.splits)

lemma suffix_registry: "AGENT_CLS_TO_INST_SUFFIX name = None \<longleftrightarrow> name \<noteq> ''CodeActAgent''"
  by (simp add: AGENT_CLS_TO_INST_SUFFIX_def)

lemma build_instruction_unregistered:
  assumes "name \<noteq> ''CodeActAgent''"
  shows "\<exists>e. build_instruction inst name = Inl e"
  using assms
  by (simp add: build_instruction_def getitem_def AGENT_CLS_TO_INST_SUFFIX_def split: sum.splits)

lemma build_instruction_KeyError:
  assumes "name \<noteq> ''CodeActAgent''" and "4 \<le> length (choices inst)"
  shows "build_instruction inst name = Inl (KeyError name)"
proof -
  from assms(2) have "list_getitem (choices inst) 0 = Inr (choices inst ! 0)"
    "list_getitem (choices inst) 1 = Inr (choices inst ! 1)"
    "list_getitem (choices inst) 2 = Inr (choices inst ! 2)"
    "list_getitem (choices inst) 3 = Inr (choices inst ! 3)"
    unfolding list_getitem_def by auto
  with assms(1) show ?thesis
    by (simp add: build_instruction_def getitem_def AGENT_CLS_TO_INST_SUFFIX_def)
qed

lemma try_block_no_instruction:
  assumes "build_instruction inst (class_name ag) = Inl e"
  shows "agent_runs (fst (try_block ev ag inst md reset_logger w)) = agent_runs w
         \<and> (\<exists>e'. snd (try_block ev ag inst md reset_logger w) = Inl e')"
proof -
  obtain w1 r1 where s1: "setup_workspace ev w = (w1, r1)" by (cases "setup_workspace ev w")
  with agent_runs_setup_workspace [of ev w] have a1: "agent_runs w1 = agent_runs w" by simp
  show ?thesis
  proof (cases r1)
    case (Inl e1)
    with s1 a1 show ?thesis by (simp add: try_block_def)
  next
    case (Inr path)
    obtain w2 r2 where s2: "setup_logger inst md reset_logger w1 = (w2, r2)"
      by (cases "setup_logger inst md reset_logger w1")
    with agent_runs_setup_logger [of inst md reset_logger w1] a1
    have a2: "agent_runs w2 = agent_runs w" by simp
    from s1 Inr s2 a2 assms show ?thesis
      by (cases r2) (simp_all add: try_block_def)
  qed
qed

lemma try_block_KeyError:
  assumes "build_instruction inst (class_name ag) = Inl e"
    and "setup_workspace ev w = (w1, Inr path)"
    and "setup_logger inst md reset_logger w1 = (w2, Inr ())"
  shows "snd (try_block ev ag inst md reset_logger w) = Inl e"
  using assms by (simp add: try_block_def)

lemma process_instance_try_block:
  assumes "make_agent ev md = Inr ag"
  shows "agent_runs (fst (process_instance ev inst md reset_logger w)) =
           agent_runs (fst (try_block ev ag inst md reset_logger w))
         \<and> snd (process_instance ev inst md reset_logger w) =
           snd (try_block ev ag inst md reset_logger w)"
  using assms
  by (cases "try_block ev ag inst md reset_logger w")
     (simp add: process_instance_def Let_def split: sum.splits)

lemma run_agent_records_call:
  "\<exists>args. agent_runs (fst (run_agent ev ag inst md instruction w)) = agent_runs w @ [args]
     \<and> arg_agent args = class_name ag
     \<and> arg_fake_user_response_fn args = AGENT_CLS_TO_FAKE_USER_RESPONSE_FN (class_name ag)"
  by (simp add: run_agent_def score_def Let_def split: prod.splits sum.splits option.splits)

section \<open>The workspace configuration is restored\<close>

text \<open>
  Claim C3. The fields \<open>workspace_mount_path\<close> and \<open>workspace_base\<close> of the shared
  configuration have, after \<open>process_instance\<close>, the values they had before it: when
  it returns an output and when it leaves with an exception, whatever the exception
  (one of the agent loop, the failed assertion on a missing state, a failure of the
  set-up, or one raised while the agent is made, before anything is written), and
  whatever the agent loop did to the configuration meanwhile.
\<close>

theorem process_instance_restores_workspace:
  "workspace_mount_path (config (fst (process_instance ev inst md reset_logger w)))
     = workspace_mount_path (config w)
   \<and> workspace_base (config (fst (process_instance ev inst md reset_logger w)))
     = workspace_base (config w)"
proof (cases "make_agent ev md")
  case (Inl e)
  \<comment> \<open>The exception leaves before the \<open>try\<close>; nothing was written.\<close>
  then have "fst (process_instance ev inst md reset_logger w) = w"
    by (simp add: process_instance_def)
  then show ?thesis by simp
next
  case (Inr ag)
  obtain w1 r where t: "try_block ev ag inst md reset_logger w = (w1, r)"
    by (cases "try_block ev ag inst md reset_logger w")
  \<comment> \<open>\<open>w2\<close> is the world after the \<open>except\<close> clause, whatever the \<open>try\<close> block did.\<close>
  define w2 where
    "w2 = (case r of
             Inl e \<Rightarrow> if is_Exception e then logger_error ''Process instance failed'' w1 else w1
           | Inr _ \<Rightarrow> w1)"
  from Inr t have
    "fst (process_instance ev inst md reset_logger w) =
       w2\<lparr>config := (config w2)\<lparr>workspace_mount_path := workspace_mount_path (config w),
                                workspace_base := workspace_base (config w)\<rparr>\<rparr>"
    by (simp add: process_instance_def Let_def w2_def)
  then show ?thesis by simp
qed

text \<open>
  Three runs in which the agent loop overwrites both fields: it returns a state, it
  raises, it returns no state. The fields are back each time.
\<close>

theorem process_instance_restores_workspace_witness:
  "config (fst (process_instance (sample_env ''CodeActAgent'' (Inr (Some sample_state)))
             sample_instance sample_metadata True sample_world))
     = \<lparr>workspace_mount_path = ''/ws'', workspace_base = ''/base''\<rparr>
   \<and> config (fst (process_instance (sample_env ''CodeActAgent'' (Inl (Foreign True ''agent loop'')))
             sample_instance sample_metadata True sample_world))
     = \<lparr>workspace_mount_path = ''/ws'', workspace_base = ''/base''\<rparr>
   \<and> snd (process_instance (sample_env ''CodeActAgent'' (Inl (Foreign True ''agent loop'')))
             sample_instance sample_metadata True sample_world)
     = Inl (Foreign True ''agent loop'')
   \<and> config (fst (process_instance (sample_env ''CodeActAgent'' (Inr None))
             sample_instance sample_metadata True sample_world))
     = \<lparr>workspace_mount_path = ''/ws'', workspace_base = ''/base''\<rparr>
   \<and> snd (process_instance (sample_env ''CodeActAgent'' (Inr None))
             sample_instance sample_metadata True sample_world)
     = Inl (AssertionError ''State should not be None.'')"
proof -
  have r: "snd (process_instance (sample_env ''CodeActAgent'' (Inl (Foreign True ''agent loop'')))
             sample_instance sample_metadata True sample_world)
       = Inl (Foreign True ''agent loop'')
     \<and> snd (process_instance (sample_env ''CodeActAgent'' (Inr None))
             sample_instance sample_metadata True sample_world)
       = Inl (AssertionError ''State should not be None.'')"
    by code_simp
  have c: "config sample_world = \<lparr>workspace_mount_path = ''/ws'', workspace_base = ''/base''\<rparr>"
    by (simp add: sample_world_def)
  show ?thesis
    using r c
      process_instance_restores_workspace [of "sample_env ''CodeActAgent'' (Inr (Some sample_state))"
        sample_instance sample_metadata True sample_world]
      process_instance_restores_workspace [of "sample_env ''CodeActAgent'' (Inl (Foreign True ''agent loop''))"
        sample_instance sample_metadata True sample_world]
      process_instance_restores_workspace [of "sample_env ''CodeActAgent'' (Inr None)"
        sample_instance sample_metadata True sample_world]
    by (simp add: config.equality)
qed

section \<open>An agent class without an instruction suffix\<close>

text \<open>
  Claim C6. For every agent class name other than \<open>CodeActAgent\<close>, that is every name
  without an entry in \<open>AGENT_CLS_TO_INST_SUFFIX\<close>, building the instruction for a
  prepared instance (four choices) fails with the \<open>KeyError\<close> of that name, which is
  the specification's \<open>UnknownAgentClassError\<close>. In \<open>process_instance\<close> with an agent
  of such a class the agent loop is not called and the run ends with an exception; it
  is that \<open>KeyError\<close> whenever the workspace and the logger were set up.
\<close>

theorem unknown_agent_class_fails_before_agent_loop:
  assumes "name \<noteq> ''CodeActAgent''"
    and "4 \<le> length (choices inst)"
    and "make_agent ev md = Inr ag"
    and "class_name ag = name"
  shows "AGENT_CLS_TO_INST_SUFFIX name = None
         \<and> build_instruction inst name = Inl (KeyError name)
         \<and> agent_runs (fst (process_instance ev inst md reset_logger w)) = agent_runs w
         \<and> (\<exists>e. snd (process_instance ev inst md reset_logger w) = Inl e)
         \<and> (\<forall>w1 path w2.
               setup_workspace ev w = (w1, Inr path) \<and>
               setup_logger inst md reset_logger w1 = (w2, Inr ()) \<longrightarrow>
               snd (process_instance ev inst md reset_logger w) = Inl (KeyError name))"
proof -
  from assms have b: "build_instruction inst (class_name ag) = Inl (KeyError name)"
    using build_instruction_KeyError by simp
  from assms(1) have "AGENT_CLS_TO_INST_SUFFIX name = None" by (simp add: suffix_registry)
  with b assms(4) try_block_no_instruction [OF b, of ev md reset_logger w]
    try_block_KeyError [OF b, of ev w _ _ md reset_logger]
    process_instance_try_block [OF assms(3), of inst reset_logger w]
  show ?thesis by auto
qed

theorem unknown_agent_class_fails_before_agent_loop_witness:
  "build_instruction sample_instance ''MonologueAgent'' = Inl (KeyError ''MonologueAgent'')
   \<and> snd (process_instance (sample_env ''MonologueAgent'' (Inr (Some sample_state)))
            sample_instance sample_metadata False sample_world)
       = Inl (KeyError ''MonologueAgent'')
   \<and> agent_runs (fst (process_instance (sample_env ''MonologueAgent'' (Inr (Some sample_state)))
            sample_instance sample_metadata False sample_world)) = []"
proof -
  have n: "''MonologueAgent'' \<noteq> ''CodeActAgent''" by simp
  have l: "4 \<le> length (choices sample_instance)" by (simp add: sample_instance_def)
  have m: "make_agent (sample_env ''MonologueAgent'' (Inr (Some sample_state))) sample_metadata
             = Inr \<lparr>class_name = ''MonologueAgent''\<rparr>"
    by (simp add: sample_env_def)
  have c: "class_name \<lparr>class_name = ''MonologueAgent''\<rparr> = ''MonologueAgent''" by simp
  have r: "snd (process_instance (sample_env ''MonologueAgent'' (Inr (Some sample_state)))
            sample_instance sample_metadata False sample_world)
       = Inl (KeyError ''MonologueAgent'')"
    by code_simp
  have a: "agent_runs sample_world = []" by (simp add: sample_world_def)
  show ?thesis
    using r a unknown_agent_class_fails_before_agent_loop [OF n l m c, of False sample_world]
    by simp
qed

section \<open>The workspace of an evaluation\<close>



section \<open>The callback of the simulated user\<close>

text \<open>
  Claim C9, as the program has it. For every agent class name absent from
  \<open>AGENT_CLS_TO_FAKE_USER_RESPONSE_FN\<close> the lookup with \<open>.get\<close> gives \<open>None\<close> and cannot
  fail. But \<open>process_instance\<close> does not reach that lookup for such a class: the
  instruction suffix is looked up before it, so the run ends with an exception and the
  agent loop is not called. Whenever \<open>process_instance\<close> calls the agent loop, the
  agent is a \<open>CodeActAgent\<close> and the callback is \<open>codeact_user_response\<close>; \<open>None\<close> is
  never passed.
\<close>

theorem fake_user_response_lookup_not_reached:
  "(name \<notin> {''CodeActAgent'', ''MonologueAgent''} \<longrightarrow>
      AGENT_CLS_TO_FAKE_USER_RESPONSE_FN name = None)
   \<and> (make_agent ev md = Inr ag \<and> class_name ag \<notin> {''CodeActAgent'', ''MonologueAgent''} \<longrightarrow>
        agent_runs (fst (process_instance ev inst md reset_logger w)) = agent_runs w
        \<and> (\<exists>e. snd (process_instance ev inst md reset_logger w) = Inl e))
   \<and> (agent_runs (fst (process_instance ev inst md reset_logger w)) = agent_runs w
      \<or> (\<exists>args. agent_runs (fst (process_instance ev inst md reset_logger w)) = agent_runs w @ [args]
            \<and> arg_agent args = ''CodeActAgent''
            \<and> arg_fake_user_response_fn args = Some codeact_user_response))"
proof (intro conjI impI)
  assume "name \<notin> {''CodeActAgent'', ''MonologueAgent''}"
  then show "AGENT_CLS_TO_FAKE_USER_RESPONSE_FN name = None"
    by (simp add: AGENT_CLS_TO_FAKE_USER_RESPONSE_FN_def)
next
  assume a: "make_agent ev md = Inr ag \<and> class_name ag \<notin> {''CodeActAgent'', ''MonologueAgent''}"
  then have "class_name ag \<noteq> ''CodeActAgent''" by simp
  from build_instruction_unregistered [OF this, of inst] obtain e where
    b: "build_instruction inst (class_name ag) = Inl e" by blast
  from a have m: "make_agent ev md = Inr ag" by simp
  from try_block_no_instruction [OF b, of ev md reset_logger w]
    process_instance_try_block [OF m, of inst reset_logger w]
  show "agent_runs (fst (process_instance ev inst md reset_logger w)) = agent_runs w" by simp
  from try_block_no_instruction [OF b, of ev md reset_logger w]
    process_instance_try_block [OF m, of inst reset_logger w]
  show "\<exists>e. snd (process_instance ev inst md reset_logger w) = Inl e" by simp
next
  show "agent_runs (fst (process_instance ev inst md reset_logger w)) = agent_runs w
      \<or> (\<exists>args. agent_runs (fst (process_instance ev inst md reset_logger w)) = agent_runs w @ [args]
            \<and> arg_agent args = ''CodeActAgent''
            \<and> arg_fake_user_response_fn args = Some codeact_user_response)"
  proof (cases "make_agent ev md")
    case (Inl e)
    then show ?thesis by (simp add: process_instance_def)
  next
    case (Inr ag)
    note m = this
    show ?thesis
    proof (cases "build_instruction inst (class_name ag)")
      case (Inl e)
      from try_block_no_instruction [OF Inl, of ev md reset_logger w]
        process_instance_try_block [OF m, of inst reset_logger w]
      show ?thesis by simp
    next
      case (Inr instruction)
      then have c: "class_name ag = ''CodeActAgent''"
        using build_instruction_unregistered [of "class_name ag" inst] by auto
      obtain w1 r1 where s1: "setup_workspace ev w = (w1, r1)" by (cases "setup_workspace ev w")
      with agent_runs_setup_workspace [of ev w] have a1: "agent_runs w1 = agent_runs w" by simp
      obtain w2 r2 where s2: "setup_logger inst md reset_logger w1 = (w2, r2)"
        by (cases "setup_logger inst md reset_logger w1")
      with agent_runs_setup_logger [of inst md reset_logger w1] a1
      have a2: "agent_runs w2 = agent_runs w" by simp
      have "agent_runs (fst (try_block ev ag inst md reset_logger w)) = agent_runs w
            \<or> (\<exists>args. agent_runs (fst (try_block ev ag inst md reset_logger w)) = agent_runs w @ [args]
                  \<and> arg_agent args = ''CodeActAgent''
                  \<and> arg_fake_user_response_fn args = Some codeact_user_response)"
      proof (cases r1)
        case (Inl e1)
        with s1 a1 show ?thesis by (simp add: try_block_def)
      next
        case (Inr path)
        note p = this
        show ?thesis
        proof (cases r2)
          case (Inl e2)
          with s1 p s2 a2 show ?thesis by (simp add: try_block_def)
        next
          case (Inr u)
          let ?w3 = "logger_info (''Process-specific workspace mounted at '' @ path) w2"
          from s1 p s2 Inr \<open>build_instruction inst (class_name ag) = Inr instruction\<close>
          have t: "try_block ev ag inst md reset_logger w = run_agent ev ag inst md instruction ?w3"
            by (simp add: try_block_def)
          from run_agent_records_call [of ev ag inst md instruction ?w3] a2 c t
          show ?thesis by (auto simp: AGENT_CLS_TO_FAKE_USER_RESPONSE_FN_def)
        qed
      qed
      with process_instance_try_block [OF m, of inst reset_logger w] show ?thesis by simp
    qed
  qed
qed

theorem fake_user_response_lookup_not_reached_witness:
  "AGENT_CLS_TO_FAKE_USER_RESPONSE_FN ''BrowsingAgent'' = None
   \<and> agent_runs (fst (process_instance (sample_env ''BrowsingAgent'' (Inr (Some sample_state)))
            sample_instance sample_metadata True sample_world)) = []
   \<and> map arg_fake_user_response_fn
        (agent_runs (fst (process_instance (sample_env ''CodeActAgent'' (Inr (Some sample_state)))
            sample_instance sample_metadata True sample_world)))
       = [Some codeact_user_response]"
proof -
  have c: "map arg_fake_user_response_fn
        (agent_runs (fst (process_instance (sample_env ''CodeActAgent'' (Inr (Some sample_state)))
            sample_instance sample_metadata True sample_world)))
       = [Some codeact_user_response]"
    by code_simp
  have n: "''BrowsingAgent'' \<notin> {''CodeActAgent'', ''MonologueAgent''}" by simp
  have m: "make_agent (sample_env ''BrowsingAgent'' (Inr (Some sample_state))) sample_metadata
             = Inr \<lparr>class_name = ''BrowsingAgent''\<rparr>"
    by (simp add: sample_env_def)
  have a: "agent_runs sample_world = []" by (simp add: sample_world_def)
  show ?thesis
    using c n m a
      fake_user_response_lookup_not_reached [of "''BrowsingAgent''"
        "sample_env ''BrowsingAgent'' (Inr (Some sample_state))" sample_metadata
        "\<lparr>class_name = ''BrowsingAgent''\<rparr>" sample_instance True sample_world]
    by simp
qed

text \<open>
  The claim as stated, that for a class without a callback the agent loop is called
  with \<open>None\<close>, fails on \<open>PlannerAgent\<close>: the run ends with
  \<open>KeyError('PlannerAgent')\<close> and the agent loop was not called at all.
\<close>

theorem planner_agent_fails_before_agent_loop:
  "AGENT_CLS_TO_FAKE_USER_RESPONSE_FN ''PlannerAgent'' = None
   \<and> snd (process_instance (sample_env ''PlannerAgent'' (Inr (Some sample_state)))
            sample_instance sample_metadata False sample_world)
       = Inl (KeyError ''PlannerAgent'')
   \<and> agent_runs (fst (process_instance (sample_env ''PlannerAgent'' (Inr (Some sample_state)))
            sample_instance sample_metadata False sample_world)) = []"
  by code_simp

end
